(* ===== verification/Json.thy ===== *)
theory Json
  imports Prelude
begin

text \<open>
  JSON documents and \<open>JSON.stringify\<close>, the serialiser axios applies to a plain-object
  request body. Strings are byte strings (Isabelle's \<open>char\<close> is a byte); numbers are
  the integral ones.
\<close>

section \<open>Documents\<close>

datatype json =
    JNull
  | JBool bool
  | JNum int
  | JStr string
  | JArr "json list"
  | JObj "(string \<times> json) list"

section \<open>Printing: JSON.stringify\<close>

abbreviation dquote :: char where "dquote \<equiv> CHR 0x22"
abbreviation bslash :: char where "bslash \<equiv> CHR 0x5C"

definition hex4 :: "nat \<Rightarrow> string" where
  "hex4 n = [hex_digit (n div 4096 mod 16), hex_digit (n div 256 mod 16),
             hex_digit (n div 16 mod 16), hex_digit (n mod 16)]"

definition json_escape :: "char \<Rightarrow> string" where
  "json_escape c =
     (if c = CHR 0x08 then [bslash, CHR ''b'']
      else if c = CHR 0x09 then [bslash, CHR ''t'']
      else if c = CHR 0x0A then [bslash, CHR ''n'']
      else if c = CHR 0x0C then [bslash, CHR ''f'']
      else if c = CHR 0x0D then [bslash, CHR ''r'']
      else if c = dquote then [bslash, dquote]
      else if c = bslash then [bslash, bslash]
      else if (of_char c :: nat) < 32 then bslash # CHR ''u'' # hex4 (of_char c)
      else [c])"

definition json_quote :: "string \<Rightarrow> string" where
  "json_quote s = dquote # concat (map json_escape s) @ [dquote]"

definition show_int :: "int \<Rightarrow> string" where
  "show_int i = (if i < 0 then CHR ''-'' # show_nat (nat (- i)) else show_nat (nat i))"

primrec json_stringify :: "json \<Rightarrow> string"
  and stringify_elems :: "json list \<Rightarrow> string"
  and stringify_members :: "(string \<times> json) list \<Rightarrow> string"
  and stringify_member :: "string \<times> json \<Rightarrow> string"
where
  "json_stringify JNull = ''null''"
| "json_stringify (JBool b) = (if b then ''true'' else ''false'')"
| "json_stringify (JNum i) = show_int i"
| "json_stringify (JStr s) = json_quote s"
| "json_stringify (JArr xs) = CHR ''['' # stringify_elems xs @ '']''"
| "json_stringify (JObj kvs) = CHR ''{'' # stringify_members kvs @ ''}''"
| "stringify_elems [] = []"
| "stringify_elems (x # xs) =
     json_stringify x @ (if xs = [] then [] else CHR '','' # stringify_elems xs)"
| "stringify_members [] = []"
| "stringify_members (m # ms) =
     stringify_member m @ (if ms = [] then [] else CHR '','' # stringify_members ms)"
| "stringify_member (k, v) = json_quote k @ CHR '':'' # json_stringify v"

end
