(* ===== verification/Json_Parse.thy ===== *)
theory Json_Parse
  imports Json
begin

text \<open>
  \<open>JSON.parse\<close>, which axios's default \<open>transformResponse\<close> applies to a reply body,
  as a recursive-descent parser that runs on fuel, with its error kinds kept apart
  (\<open>parse_error\<close>). The lemmas show that every call consumes input, that twice the
  input length is enough fuel and more fuel changes nothing, and that the parser reads
  back what \<open>json_stringify\<close> printed, with any whitespace around it.
\<close>

section \<open>Parsing: JSON.parse\<close>

datatype parse_error = Syntax | Unsupported | OutOfFuel

definition is_json_ws :: "char \<Rightarrow> bool" where
  "is_json_ws c \<longleftrightarrow> c = CHR 0x20 \<or> c = CHR 0x09 \<or> c = CHR 0x0A \<or> c = CHR 0x0D"

declare is_json_ws_def [json_simps]

fun skip_ws :: "string \<Rightarrow> string" where
  "skip_ws [] = []"
| "skip_ws (c # cs) = (if is_json_ws c then skip_ws cs else c # cs)"

definition simple_unescape :: "char \<Rightarrow> char option" where
  "simple_unescape e =
     (if e = dquote then Some dquote else if e = bslash then Some bslash
      else if e = CHR ''/'' then Some (CHR ''/'')
      else if e = CHR ''b'' then Some (CHR 0x08) else if e = CHR ''f'' then Some (CHR 0x0C)
      else if e = CHR ''n'' then Some (CHR 0x0A) else if e = CHR ''r'' then Some (CHR 0x0D)
      else if e = CHR ''t'' then Some (CHR 0x09) else None)"

definition hex4_val :: "string \<Rightarrow> nat option" where
  "hex4_val hs =
     (case map hex_val hs of
        [Some a, Some b, Some c, Some d] \<Rightarrow> Some (((a * 16 + b) * 16 + c) * 16 + d)
      | _ \<Rightarrow> None)"

fun parse_chars :: "string \<Rightarrow> parse_error + (string \<times> string)" where
  "parse_chars [] = Inl Syntax"
| "parse_chars (c # cs) =
     (if c = dquote then Inr ([], cs)
      else if c = bslash then
        (case cs of
           [] \<Rightarrow> Inl Syntax
         | e # cs' \<Rightarrow>
             (case simple_unescape e of
                Some d \<Rightarrow> map_sum id (\<lambda>(s, r). (d # s, r)) (parse_chars cs')
              | None \<Rightarrow>
                  if e = CHR ''u'' \<and> length cs' \<ge> 4 then
                    (case hex4_val (take 4 cs') of
                       None \<Rightarrow> Inl Syntax
                     | Some v \<Rightarrow>
                         if v < 256
                         then map_sum id (\<lambda>(s, r). (char_of v # s, r)) (parse_chars (drop 4 cs'))
                         else Inl Unsupported)
                  else Inl Syntax))
      else if (of_char c :: nat) < 32 then Inl Syntax
      else map_sum id (\<lambda>(s, r). (c # s, r)) (parse_chars cs))"

definition parse_number :: "string \<Rightarrow> parse_error + (int \<times> string)" where
  "parse_number s =
     (let neg = (s \<noteq> [] \<and> hd s = CHR ''-'');
          s1 = (if neg then tl s else s);
          ds = takeWhile is_digit s1;
          r = dropWhile is_digit s1
      in if ds = [] \<or> (hd ds = CHR ''0'' \<and> tl ds \<noteq> []) then Inl Syntax
         else if r \<noteq> [] \<and> (hd r = CHR ''.'' \<or> hd r = CHR ''e'' \<or> hd r = CHR ''E'') then Inl Unsupported
         else Inr (if neg then - int (read_nat ds) else int (read_nat ds), r))"

fun parse_value :: "nat \<Rightarrow> string \<Rightarrow> parse_error + (json \<times> string)"
  and parse_elems :: "nat \<Rightarrow> string \<Rightarrow> parse_error + (json list \<times> string)"
  and parse_members :: "nat \<Rightarrow> string \<Rightarrow> parse_error + ((string \<times> json) list \<times> string)"
where
  "parse_value 0 s = Inl OutOfFuel"
| "parse_value (Suc n) s =
     (case skip_ws s of
        [] \<Rightarrow> Inl Syntax
      | c # cs \<Rightarrow>
          if c = CHR ''n'' then (if take 3 cs = ''ull'' then Inr (JNull, drop 3 cs) else Inl Syntax)
          else if c = CHR ''t'' then (if take 3 cs = ''rue'' then Inr (JBool True, drop 3 cs) else Inl Syntax)
          else if c = CHR ''f'' then (if take 4 cs = ''alse'' then Inr (JBool False, drop 4 cs) else Inl Syntax)
          else if c = dquote then map_sum id (\<lambda>(s, r). (JStr s, r)) (parse_chars cs)
          else if c = CHR ''['' then
            (let r = skip_ws cs in
             if r \<noteq> [] \<and> hd r = CHR '']'' then Inr (JArr [], tl r)
             else map_sum id (\<lambda>(vs, r'). (JArr vs, r')) (parse_elems n r))
          else if c = CHR ''{'' then
            (let r = skip_ws cs in
             if r \<noteq> [] \<and> hd r = CHR ''}'' then Inr (JObj [], tl r)
             else map_sum id (\<lambda>(ms, r'). (JObj ms, r')) (parse_members n r))
          else if c = CHR ''-'' \<or> is_digit c then map_sum id (\<lambda>(i, r). (JNum i, r)) (parse_number (c # cs))
          else Inl Syntax)"
| "parse_elems 0 s = Inl OutOfFuel"
| "parse_elems (Suc n) s =
     (case parse_value n s of
        Inl e \<Rightarrow> Inl e
      | Inr (v, r) \<Rightarrow>
          (let r' = skip_ws r in
           if r' = [] then Inl Syntax
           else if hd r' = CHR '','' then map_sum id (\<lambda>(vs, r''). (v # vs, r'')) (parse_elems n (tl r'))
           else if hd r' = CHR '']'' then Inr ([v], tl r')
           else Inl Syntax))"
| "parse_members 0 s = Inl OutOfFuel"
| "parse_members (Suc n) s =
     (case skip_ws s of
        [] \<Rightarrow> Inl Syntax
      | c # cs \<Rightarrow>
          if c \<noteq> dquote then Inl Syntax
          else
            (case parse_chars cs of
               Inl e \<Rightarrow> Inl e
             | Inr (k, r) \<Rightarrow>
                 (let r1 = skip_ws r in
                  if r1 = [] \<or> hd r1 \<noteq> CHR '':'' then Inl Syntax
                  else
                    (case parse_value n (tl r1) of
                       Inl e \<Rightarrow> Inl e
                     | Inr (v, r2) \<Rightarrow>
                         (let r3 = skip_ws r2 in
                          if r3 = [] then Inl Syntax
                          else if hd r3 = CHR '','' then
                            map_sum id (\<lambda>(ms, r4). ((k, v) # ms, r4)) (parse_members n (tl r3))
                          else if hd r3 = CHR ''}'' then Inr ([(k, v)], tl r3)
                          else Inl Syntax)))))"

definition json_parse :: "string \<Rightarrow> parse_error + json" where
  "json_parse s =
     (case parse_value (2 * length s + 2) s of
        Inl e \<Rightarrow> Inl e
      | Inr (v, r) \<Rightarrow> if skip_ws r = [] then Inr v else Inl Syntax)"

definition num_end :: "string \<Rightarrow> bool" where
  "num_end r \<longleftrightarrow> r = [] \<or> \<not> is_digit (hd r) \<and> hd r \<noteq> CHR ''.'' \<and> hd r \<noteq> CHR ''e'' \<and> hd r \<noteq> CHR ''E''"

section \<open>Consumption and fuel\<close>

lemma skip_ws_length: "length (skip_ws s) \<le> length s"
  by (induction s) auto

lemma skip_ws_Cons_length: "skip_ws s = c # cs \<Longrightarrow> length cs < length s"
  using skip_ws_length [of s] by simp

lemma parse_chars_length: "parse_chars s = Inr (x, r) \<Longrightarrow> length r < length s"
proof (induction s arbitrary: x rule: parse_chars.induct)
  case 1
  then show ?case by simp
next
  case (2 c cs)
  then show ?case
    by (fastforce split: if_splits list.splits option.splits sum.splits prod.splits
        simp: map_sum_def)
qed

lemma parse_number_length:
  assumes "parse_number s = Inr (i, r)"
  shows "length r < length s"
proof -
  let ?neg = "s \<noteq> [] \<and> hd s = CHR ''-''"
  let ?s1 = "if ?neg then tl s else s"
  have ds: "takeWhile is_digit ?s1 \<noteq> []" and r: "r = dropWhile is_digit ?s1"
    using assms by (auto simp: parse_number_def Let_def split: if_splits)
  have "length (dropWhile is_digit ?s1) < length ?s1"
    using ds by (metis length_append length_greater_0_conv less_add_same_cancel2 takeWhile_dropWhile_id)
  moreover have "length ?s1 \<le> length s" by simp
  ultimately show ?thesis using r by (metis order_less_le_trans)
qed

lemma parse_consumes:
  "(\<forall>s v r. parse_value n s = Inr (v, r) \<longrightarrow> length r < length s) \<and>
   (\<forall>s vs r. parse_elems n s = Inr (vs, r) \<longrightarrow> length r < length s) \<and>
   (\<forall>s ms r. parse_members n s = Inr (ms, r) \<longrightarrow> length r < length s)"
proof (induction n)
  case 0
  then show ?case by simp
next
  case (Suc n)
  then have IHv: "\<And>s v r. parse_value n s = Inr (v, r) \<Longrightarrow> length r < length s"
    and IHe: "\<And>s vs r. parse_elems n s = Inr (vs, r) \<Longrightarrow> length r < length s"
    and IHm: "\<And>s ms r. parse_members n s = Inr (ms, r) \<Longrightarrow> length r < length s"
    by blast+
  have V: "length r < length s" if "parse_value (Suc n) s = Inr (v, r)" for s v r
  proof (cases "skip_ws s")
    case Nil
    with that show ?thesis by simp
  next
    case (Cons c cs)
    then have cs: "length cs < length s" by (rule skip_ws_Cons_length)
    have sk: "length (skip_ws cs) \<le> length cs" by (rule skip_ws_length)
    have "length r < Suc (length cs)"
      using that Cons IHe [of "skip_ws cs"] IHm [of "skip_ws cs"] sk
        parse_chars_length [of cs] parse_number_length [of "c # cs"]
      by (auto simp: Let_def map_sum_def split: if_splits sum.splits prod.splits)
    with cs show ?thesis by simp
  qed
  moreover have E: "length r < length s" if "parse_elems (Suc n) s = Inr (vs, r)" for s vs r
  proof -
    have "\<exists>v r0. parse_value n s = Inr (v, r0)"
      using that by (cases "parse_value n s") auto
    then obtain v r0 where pv: "parse_value n s = Inr (v, r0)" by blast
    have r0: "length r0 < length s" using pv by (rule IHv)
    have sk: "length (skip_ws r0) \<le> length r0" by (rule skip_ws_length)
    show ?thesis
      using that pv r0 sk IHe [of "tl (skip_ws r0)"]
      by (auto simp: Let_def map_sum_def split: if_splits sum.splits prod.splits)
  qed
  moreover have M: "length r < length s" if "parse_members (Suc n) s = Inr (ms, r)" for s ms r
  proof -
    have "\<exists>cs. skip_ws s = dquote # cs"
      using that by (cases "skip_ws s") (auto split: if_splits)
    then obtain cs where sk: "skip_ws s = dquote # cs" by blast
    then have cs: "length cs < length s" by (rule skip_ws_Cons_length)
    have "\<exists>k r0. parse_chars cs = Inr (k, r0)"
      using that sk by (cases "parse_chars cs") auto
    then obtain k r0 where pc: "parse_chars cs = Inr (k, r0)" by blast
    have r0: "length r0 < length cs" using pc by (rule parse_chars_length)
    let ?r1 = "skip_ws r0"
    have r1: "length ?r1 \<le> length r0" by (rule skip_ws_length)
    have ne: "?r1 \<noteq> []" and colon: "hd ?r1 = CHR '':''"
      using that sk pc by (auto simp: Let_def split: if_splits)
    have "\<exists>v r2. parse_value n (tl ?r1) = Inr (v, r2)"
      using that sk pc ne colon by (cases "parse_value n (tl ?r1)") (auto simp: Let_def)
    then obtain v r2 where pv: "parse_value n (tl ?r1) = Inr (v, r2)" by blast
    have r2: "length r2 < length (tl ?r1)" using pv by (rule IHv)
    have r3: "length (skip_ws r2) \<le> length r2" by (rule skip_ws_length)
    have "length r < length s \<and> True"
      using that sk pc ne colon pv cs r0 r1 r2 r3 IHm [of "tl (skip_ws r2)"]
      by (auto simp: Let_def map_sum_def split: if_splits sum.splits prod.splits)
    then show ?thesis by simp
  qed
  ultimately show ?case by blast
qed

lemma map_sum_Inl_iff: "map_sum id f x = Inl e \<longleftrightarrow> x = Inl e"
  by (cases x) auto
lemma parse_chars_fuel: "parse_chars s \<noteq> Inl OutOfFuel"
proof (induction s rule: parse_chars.induct)
  case 1
  then show ?case by simp
next
  case (2 c cs)
  then show ?case
    by (simp add: map_sum_Inl_iff split: list.split option.split)
qed
lemma parse_number_fuel: "parse_number s \<noteq> Inl OutOfFuel"
  by (simp add: parse_number_def Let_def)

lemma parse_value_OutOfFuel:
  assumes "parse_value (Suc n) s = Inl OutOfFuel"
  shows "\<exists>c cs. skip_ws s = c # cs \<and>
     (parse_elems n (skip_ws cs) = Inl OutOfFuel \<or> parse_members n (skip_ws cs) = Inl OutOfFuel)"
proof (cases "skip_ws s")
  case Nil
  with assms show ?thesis by simp
next
  case (Cons c cs)
  with assms parse_chars_fuel [of cs] parse_number_fuel [of "c # cs"] show ?thesis
    by (simp add: Let_def map_sum_Inl_iff split: if_splits)
qed
lemma parse_elems_OutOfFuel:
  assumes "parse_elems (Suc n) s = Inl OutOfFuel"
  shows "parse_value n s = Inl OutOfFuel \<or>
    (\<exists>v r0. parse_value n s = Inr (v, r0) \<and> parse_elems n (tl (skip_ws r0)) = Inl OutOfFuel)"
proof (cases "parse_value n s")
  case (Inl e)
  with assms show ?thesis by simp
next
  case (Inr p)
  with assms show ?thesis
    by (cases p) (simp add: Let_def map_sum_Inl_iff split: if_splits)
qed

lemma parse_members_OutOfFuel:
  assumes "parse_members (Suc n) s = Inl OutOfFuel"
  shows "\<exists>cs k r0. skip_ws s = dquote # cs \<and> parse_chars cs = Inr (k, r0) \<and>
    (parse_value n (tl (skip_ws r0)) = Inl OutOfFuel \<or>
     (\<exists>v r2. parse_value n (tl (skip_ws r0)) = Inr (v, r2) \<and>
        parse_members n (tl (skip_ws r2)) = Inl OutOfFuel))"
proof (cases "skip_ws s")
  case Nil
  with assms show ?thesis by simp
next
  case (Cons c cs)
  show ?thesis
  proof (cases "parse_chars cs")
    case (Inl e)
    with assms Cons parse_chars_fuel [of cs] show ?thesis by (simp split: if_splits)
  next
    case (Inr p)
    obtain k r0 where p: "p = (k, r0)" by (cases p)
    show ?thesis
    proof (cases "parse_value n (tl (skip_ws r0))")
      case (Inl e)
      with assms Cons Inr p show ?thesis by (simp add: Let_def split: if_splits)
    next
      case (Inr q)
      with assms Cons \<open>parse_chars cs = Inr p\<close> p show ?thesis
        by (cases q) (simp add: Let_def map_sum_Inl_iff split: if_splits)
    qed
  qed
qed

lemma parse_value_consumes: "parse_value n s = Inr (v, r) \<Longrightarrow> length r < length s"
  using parse_consumes by blast

lemma parse_fuel_enough:
  "(\<forall>s. 2 * length s < n \<longrightarrow> parse_value n s \<noteq> Inl OutOfFuel) \<and>
   (\<forall>s. 2 * length s + 1 < n \<longrightarrow> parse_elems n s \<noteq> Inl OutOfFuel) \<and>
   (\<forall>s. 2 * length s + 1 < n \<longrightarrow> parse_members n s \<noteq> Inl OutOfFuel)"
proof (induction n)
  case 0
  then show ?case by simp
next
  case (Suc n)
  then have IHv: "\<And>s. 2 * length s < n \<Longrightarrow> parse_value n s \<noteq> Inl OutOfFuel"
    and IHe: "\<And>s. 2 * length s + 1 < n \<Longrightarrow> parse_elems n s \<noteq> Inl OutOfFuel"
    and IHm: "\<And>s. 2 * length s + 1 < n \<Longrightarrow> parse_members n s \<noteq> Inl OutOfFuel"
    by blast+
  have V: "parse_value (Suc n) s \<noteq> Inl OutOfFuel" if len: "2 * length s < Suc n" for s
  proof
    assume "parse_value (Suc n) s = Inl OutOfFuel"
    then obtain c cs where sk: "skip_ws s = c # cs"
      and sub: "parse_elems n (skip_ws cs) = Inl OutOfFuel \<or> parse_members n (skip_ws cs) = Inl OutOfFuel"
      by (blast dest: parse_value_OutOfFuel)
    from sk have cs: "length cs < length s" by (rule skip_ws_Cons_length)
    have "length (skip_ws cs) \<le> length cs" by (rule skip_ws_length)
    with len cs have "2 * length (skip_ws cs) + 1 < n" by linarith
    with sub IHe IHm show False by blast
  qed
  moreover have E: "parse_elems (Suc n) s \<noteq> Inl OutOfFuel" if len: "2 * length s + 1 < Suc n" for s
  proof
    assume "parse_elems (Suc n) s = Inl OutOfFuel"
    then consider "parse_value n s = Inl OutOfFuel"
      | v r0 where "parse_value n s = Inr (v, r0)" "parse_elems n (tl (skip_ws r0)) = Inl OutOfFuel"
      by (blast dest: parse_elems_OutOfFuel)
    then show False
    proof cases
      case 1
      with len IHv [of s] show False by linarith
    next
      case (2 v r0)
      from 2(1) have r0: "length r0 < length s" by (rule parse_value_consumes)
      have "length (skip_ws r0) \<le> length r0" by (rule skip_ws_length)
      with len r0 have "2 * length (tl (skip_ws r0)) + 1 < n" by simp
      with 2(2) IHe show False by blast
    qed
  qed
  moreover have M: "parse_members (Suc n) s \<noteq> Inl OutOfFuel" if len: "2 * length s + 1 < Suc n" for s
  proof
    assume "parse_members (Suc n) s = Inl OutOfFuel"
    then obtain cs k r0 where sk: "skip_ws s = dquote # cs" and pc: "parse_chars cs = Inr (k, r0)"
      and sub: "parse_value n (tl (skip_ws r0)) = Inl OutOfFuel \<or>
        (\<exists>v r2. parse_value n (tl (skip_ws r0)) = Inr (v, r2) \<and>
           parse_members n (tl (skip_ws r2)) = Inl OutOfFuel)"
      by (blast dest: parse_members_OutOfFuel)
    from sk have cs: "length cs < length s" by (rule skip_ws_Cons_length)
    from pc have r0: "length r0 < length cs" by (rule parse_chars_length)
    have r1: "length (skip_ws r0) \<le> length r0" by (rule skip_ws_length)
    from len cs r0 r1 have fv: "2 * length (tl (skip_ws r0)) < n" by simp
    from sub show False
    proof
      assume "parse_value n (tl (skip_ws r0)) = Inl OutOfFuel"
      with IHv [OF fv] show False by blast
    next
      assume "\<exists>v r2. parse_value n (tl (skip_ws r0)) = Inr (v, r2) \<and>
           parse_members n (tl (skip_ws r2)) = Inl OutOfFuel"
      then obtain v r2 where pv: "parse_value n (tl (skip_ws r0)) = Inr (v, r2)"
        and pm: "parse_members n (tl (skip_ws r2)) = Inl OutOfFuel" by blast
      from pv have r2: "length r2 < length (tl (skip_ws r0))" by (rule parse_value_consumes)
      have "length (skip_ws r2) \<le> length r2" by (rule skip_ws_length)
      with len cs r0 r1 r2 have "2 * length (tl (skip_ws r2)) + 1 < n" by simp
      with pm IHm show False by blast
    qed
  qed
  ultimately show ?case by blast
qed
lemma parse_value_Suc_cong:
  assumes "\<And>r. parse_elems n r \<noteq> Inl OutOfFuel \<Longrightarrow> parse_elems m r = parse_elems n r"
    and "\<And>r. parse_members n r \<noteq> Inl OutOfFuel \<Longrightarrow> parse_members m r = parse_members n r"
    and "parse_value (Suc n) s \<noteq> Inl OutOfFuel"
  shows "parse_value (Suc m) s = parse_value (Suc n) s"
proof (cases "skip_ws s")
  case Nil
  then show ?thesis by simp
next
  case (Cons c cs)
  show ?thesis
  proof (cases "parse_elems n (skip_ws cs) = Inl OutOfFuel")
    case True
    show ?thesis
    proof (cases "parse_members n (skip_ws cs) = Inl OutOfFuel")
      case True': True
      with True Cons assms(3) show ?thesis by (auto simp: Let_def map_sum_Inl_iff)
    next
      case False
      with True Cons assms(2,3) show ?thesis by (auto simp: Let_def map_sum_Inl_iff)
    qed
  next
    case False
    show ?thesis
    proof (cases "parse_members n (skip_ws cs) = Inl OutOfFuel")
      case True
      with False Cons assms(1,3) show ?thesis by (auto simp: Let_def map_sum_Inl_iff)
    next
      case False': False
      with False Cons assms(1,2) show ?thesis by (auto simp: Let_def)
    qed
  qed
qed
lemma parse_elems_Suc_cong:
  assumes "\<And>r. parse_value n r \<noteq> Inl OutOfFuel \<Longrightarrow> parse_value m r = parse_value n r"
    and "\<And>r. parse_elems n r \<noteq> Inl OutOfFuel \<Longrightarrow> parse_elems m r = parse_elems n r"
    and ne: "parse_elems (Suc n) s \<noteq> Inl OutOfFuel"
  shows "parse_elems (Suc m) s = parse_elems (Suc n) s"
proof (cases "parse_value n s")
  case (Inl e)
  moreover from ne Inl have "e \<noteq> OutOfFuel" by auto
  ultimately show ?thesis using assms(1) by simp
next
  case (Inr p)
  obtain v r where p: "p = (v, r)" by (cases p)
  from Inr assms(1) have pv: "parse_value m s = parse_value n s" by simp
  show ?thesis
  proof (cases "parse_elems n (tl (skip_ws r)) = Inl OutOfFuel")
    case True
    with ne Inr p pv show ?thesis by (auto simp: Let_def map_sum_Inl_iff)
  next
    case False
    with Inr p pv assms(2) show ?thesis by (auto simp: Let_def)
  qed
qed

lemma parse_members_Suc_cong:
  assumes "\<And>r. parse_value n r \<noteq> Inl OutOfFuel \<Longrightarrow> parse_value m r = parse_value n r"
    and "\<And>r. parse_members n r \<noteq> Inl OutOfFuel \<Longrightarrow> parse_members m r = parse_members n r"
    and ne: "parse_members (Suc n) s \<noteq> Inl OutOfFuel"
  shows "parse_members (Suc m) s = parse_members (Suc n) s"
proof (cases "skip_ws s")
  case Nil
  then show ?thesis by simp
next
  case (Cons c cs)
  show ?thesis
  proof (cases "c = dquote \<and> (\<exists>k r0. parse_chars cs = Inr (k, r0))")
    case False
    with Cons show ?thesis by (cases "parse_chars cs") auto
  next
    case True
    then obtain k r0 where c: "c = dquote" and pc: "parse_chars cs = Inr (k, r0)" by blast
    let ?t = "tl (skip_ws r0)"
    show ?thesis
    proof (cases "parse_value n ?t")
      case (Inl e)
      show ?thesis
      proof (cases "skip_ws r0 = [] \<or> hd (skip_ws r0) \<noteq> CHR '':''")
        case True
        with Cons c pc show ?thesis by (simp add: Let_def)
      next
        case False
        with ne Cons c pc Inl have "e \<noteq> OutOfFuel" by (auto simp: Let_def)
        with Inl assms(1) [of ?t] Cons c pc show ?thesis by (auto simp: Let_def)
      qed
    next
      case (Inr q)
      obtain v r2 where q: "q = (v, r2)" by (cases q)
      from Inr assms(1) have pv: "parse_value m ?t = parse_value n ?t" by simp
      show ?thesis
      proof (cases "parse_members n (tl (skip_ws r2)) = Inl OutOfFuel")
        case True
        with ne Cons c pc Inr q pv show ?thesis by (auto simp: Let_def map_sum_Inl_iff)
      next
        case False
        with Cons c pc Inr q pv assms(2) show ?thesis by (auto simp: Let_def)
      qed
    qed
  qed
qed

lemma parse_fuel_mono:
  "(\<forall>s m. n \<le> m \<longrightarrow> parse_value n s \<noteq> Inl OutOfFuel \<longrightarrow> parse_value m s = parse_value n s) \<and>
   (\<forall>s m. n \<le> m \<longrightarrow> parse_elems n s \<noteq> Inl OutOfFuel \<longrightarrow> parse_elems m s = parse_elems n s) \<and>
   (\<forall>s m. n \<le> m \<longrightarrow> parse_members n s \<noteq> Inl OutOfFuel \<longrightarrow> parse_members m s = parse_members n s)"
proof (induction n)
  case 0
  then show ?case by simp
next
  case (Suc n)
  have v: "parse_value m' r = parse_value n r" if "n \<le> m'" "parse_value n r \<noteq> Inl OutOfFuel" for m' r
    using Suc.IH that by blast
  have e: "parse_elems m' r = parse_elems n r" if "n \<le> m'" "parse_elems n r \<noteq> Inl OutOfFuel" for m' r
    using Suc.IH that by blast
  have mm: "parse_members m' r = parse_members n r" if "n \<le> m'" "parse_members n r \<noteq> Inl OutOfFuel" for m' r
    using Suc.IH that by blast
  have fuel: "\<exists>m'. m = Suc m' \<and> n \<le> m'" if "Suc n \<le> m" for m
    using that by (cases m) auto
  show ?case
  proof (intro conjI allI impI)
    fix s m assume "Suc n \<le> m" and nv: "parse_value (Suc n) s \<noteq> Inl OutOfFuel"
    then obtain m' where "m = Suc m'" and le: "n \<le> m'" using fuel by blast
    then show "parse_value m s = parse_value (Suc n) s"
      using parse_value_Suc_cong [OF e [OF le] mm [OF le] nv] by simp
  next
    fix s m assume "Suc n \<le> m" and ne: "parse_elems (Suc n) s \<noteq> Inl OutOfFuel"
    then obtain m' where "m = Suc m'" and le: "n \<le> m'" using fuel by blast
    then show "parse_elems m s = parse_elems (Suc n) s"
      using parse_elems_Suc_cong [OF v [OF le] e [OF le] ne] by simp
  next
    fix s m assume "Suc n \<le> m" and nm: "parse_members (Suc n) s \<noteq> Inl OutOfFuel"
    then obtain m' where "m = Suc m'" and le: "n \<le> m'" using fuel by blast
    then show "parse_members m s = parse_members (Suc n) s"
      using parse_members_Suc_cong [OF v [OF le] mm [OF le] nm] by simp
  qed
qed
lemma parse_value_fuel_independent:
  assumes "2 * length s < n" and "2 * length s < m"
  shows "parse_value n s = parse_value m s"
proof -
  have mono: "parse_value b s = parse_value a s" if "a \<le> b" "2 * length s < a" for a b
  proof -
    from that(2) have "parse_value a s \<noteq> Inl OutOfFuel" using parse_fuel_enough by blast
    with that(1) show ?thesis using parse_fuel_mono by blast
  qed
  show ?thesis
  proof (cases "n \<le> m")
    case True
    with assms(1) mono [of n m] show ?thesis by simp
  next
    case False
    with assms(2) mono [of m n] show ?thesis by simp
  qed
qed

section \<open>Round trip: parsing what JSON.stringify printed\<close>

lemma hex4_val_hex4: "n < 256 \<Longrightarrow> hex4_val (hex4 n) = Some n"
proof -
  assume n: "n < 256"
  then have "n div 16 < 16" by simp
  then have "((0 * 16 + 0) * 16 + n div 16 mod 16) * 16 + n mod 16 = n" by simp
  with n show ?thesis by (simp add: hex4_def hex4_val_def)
qed

lemma length_hex4 [simp]: "length (hex4 n) = 4"
  by (simp add: hex4_def)

lemma parse_chars_escape:
  "parse_chars (json_escape c @ t) = map_sum id (\<lambda>(s, r). (c # s, r)) (parse_chars t)"
  by (auto simp: json_escape_def simple_unescape_def hex4_val_hex4)

lemma parse_chars_quoted:
  "parse_chars (concat (map json_escape s) @ dquote # rest) = Inr (s, rest)"
  by (induction s) (simp_all add: parse_chars_escape)

lemma show_nat_hd_digit: "is_digit (hd (show_nat n))"
  using show_nat_digits [of n] show_nat_not_Nil [of n] by (simp add: hd_in_set)

lemma show_nat_single_zero: "hd (show_nat n) = CHR ''0'' \<Longrightarrow> tl (show_nat n) = []"
  using hd_show_nat_zero [of n] by (simp add: show_nat.simps digit_char_def)

lemma num_end_digits:
  assumes "num_end rest"
  shows "takeWhile is_digit rest = []" and "dropWhile is_digit rest = rest"
  using assms by (cases rest; simp add: num_end_def)+

lemma parse_number_show_int:
  assumes "num_end rest"
  shows "parse_number (show_int i @ rest) = Inr (i, rest)"
proof -
  have minus: "\<not> is_digit (CHR ''-'')" by (simp add: is_digit_def)
  have hd_ne: "hd (show_nat m @ rest) \<noteq> CHR ''-''" for m
    using show_nat_hd_digit [of m] minus by auto
  have r: "\<not> (rest \<noteq> [] \<and> (hd rest = CHR ''.'' \<or> hd rest = CHR ''e'' \<or> hd rest = CHR ''E''))"
    using assms by (auto simp: num_end_def)
  show ?thesis
    using num_end_digits [OF assms] show_nat_digits show_nat_single_zero hd_ne r
    by (auto simp: parse_number_def show_int_def Let_def)
qed

lemma show_int_Cons: "\<exists>c cs. show_int i = c # cs \<and> (c = CHR ''-'' \<or> is_digit c)"
proof (cases "i < 0")
  case True
  then show ?thesis by (simp add: show_int_def)
next
  case False
  obtain c cs where "show_nat (nat i) = c # cs"
    using show_nat_not_Nil by (cases "show_nat (nat i)") auto
  moreover from this have "is_digit c" using show_nat_hd_digit [of "nat i"] by simp
  ultimately show ?thesis using False by (simp add: show_int_def)
qed

lemma parse_value_num:
  assumes "c = CHR ''-'' \<or> is_digit c"
  shows "parse_value (Suc n) (c # cs) = map_sum id (\<lambda>(i, r). (JNum i, r)) (parse_number (c # cs))"
proof -
  have ws: "\<not> is_json_ws c" and ne: "c \<noteq> CHR ''n''" "c \<noteq> CHR ''t''" "c \<noteq> CHR ''f''"
    "c \<noteq> dquote" "c \<noteq> CHR ''[''" "c \<noteq> CHR ''{''"
    using assms by (auto simp: json_simps)
  show ?thesis using ws ne assms by simp
qed
lemma stringify_Cons:
  "\<exists>c cs. json_stringify v = c # cs \<and> \<not> is_json_ws c \<and> c \<noteq> CHR '']'' \<and> c \<noteq> CHR ''}''"
proof (cases v)
  case (JNum i)
  then obtain c cs where "show_int i = c # cs" and "c = CHR ''-'' \<or> is_digit c"
    using show_int_Cons [of i] by blast
  with JNum show ?thesis by (auto simp: json_simps)
next
  case (JBool b)
  then show ?thesis by (cases b) (simp_all add: json_simps)
qed (simp_all add: json_quote_def json_simps)

lemma skip_ws_stringify [simp]: "skip_ws (json_stringify v @ rest) = json_stringify v @ rest"
  using stringify_Cons [of v] by auto

lemma parse_elems_stringify:
  assumes "\<forall>x\<in>set xs. \<forall>n rest. num_end rest \<longrightarrow>
             parse_value n (json_stringify x @ rest) \<noteq> Inl OutOfFuel \<longrightarrow>
             parse_value n (json_stringify x @ rest) = Inr (x, rest)"
    and "xs \<noteq> []"
    and "parse_elems n (stringify_elems xs @ CHR '']'' # rest) \<noteq> Inl OutOfFuel"
  shows "parse_elems n (stringify_elems xs @ CHR '']'' # rest) = Inr (xs, rest)"
  using assms
proof (induction xs arbitrary: n)
  case Nil
  then show ?case by simp
next
  case (Cons x xs)
  obtain n' where n: "n = Suc n'" using Cons.prems(3) by (cases n) auto
  define tail where "tail = (if xs = [] then [] else CHR '','' # stringify_elems xs) @ CHR '']'' # rest"
  have eq: "stringify_elems (x # xs) @ CHR '']'' # rest = json_stringify x @ tail"
    by (simp add: tail_def)
  have tl_end: "num_end tail" by (simp add: tail_def num_end_def is_digit_def)
  have pe: "parse_elems (Suc n') (json_stringify x @ tail) \<noteq> Inl OutOfFuel"
    using Cons.prems(3) [unfolded n eq] .
  then have "parse_value n' (json_stringify x @ tail) \<noteq> Inl OutOfFuel"
    by (auto split: sum.splits)
  with Cons.prems(1) tl_end have px: "parse_value n' (json_stringify x @ tail) = Inr (x, tail)"
    by simp
  show ?case
  proof (cases "xs = []")
    case True
    with px show ?thesis unfolding n eq by (simp add: tail_def json_simps)
  next
    case False
    have ne: "parse_elems n' (stringify_elems xs @ CHR '']'' # rest) \<noteq> Inl OutOfFuel"
      using pe px False by (simp add: tail_def map_sum_Inl_iff json_simps)
    from Cons.prems(1) False ne have "parse_elems n' (stringify_elems xs @ CHR '']'' # rest) = Inr (xs, rest)"
      by (intro Cons.IH) simp_all
    with px False show ?thesis unfolding n eq by (simp add: tail_def json_simps)
  qed
qed

lemma parse_members_stringify:
  assumes "\<forall>(k, x)\<in>set ms. \<forall>n rest. num_end rest \<longrightarrow>
             parse_value n (json_stringify x @ rest) \<noteq> Inl OutOfFuel \<longrightarrow>
             parse_value n (json_stringify x @ rest) = Inr (x, rest)"
    and "ms \<noteq> []"
    and "parse_members n (stringify_members ms @ CHR ''}'' # rest) \<noteq> Inl OutOfFuel"
  shows "parse_members n (stringify_members ms @ CHR ''}'' # rest) = Inr (ms, rest)"
  using assms
proof (induction ms arbitrary: n)
  case Nil
  then show ?case by simp
next
  case (Cons kv ms)
  obtain k x where kv: "kv = (k, x)" by (cases kv)
  obtain n' where n: "n = Suc n'" using Cons.prems(3) by (cases n) auto
  define tail where "tail = (if ms = [] then [] else CHR '','' # stringify_members ms) @ CHR ''}'' # rest"
  have eq: "stringify_members (kv # ms) @ CHR ''}'' # rest =
      dquote # concat (map json_escape k) @ dquote # CHR '':'' # json_stringify x @ tail"
    by (simp add: kv tail_def json_quote_def)
  have tl_end: "num_end tail" by (simp add: tail_def num_end_def is_digit_def)
  have pm: "parse_members (Suc n')
      (dquote # concat (map json_escape k) @ dquote # CHR '':'' # json_stringify x @ tail) \<noteq> Inl OutOfFuel"
    using Cons.prems(3) [unfolded n eq] .
  then have "parse_value n' (json_stringify x @ tail) \<noteq> Inl OutOfFuel"
    by (auto simp: parse_chars_quoted json_simps split: sum.splits)
  with Cons.prems(1) tl_end kv have px: "parse_value n' (json_stringify x @ tail) = Inr (x, tail)"
    by simp
  show ?case
  proof (cases "ms = []")
    case True
    with px show ?thesis
      unfolding n eq by (simp add: kv tail_def json_simps parse_chars_quoted)
  next
    case False
    have ne: "parse_members n' (stringify_members ms @ CHR ''}'' # rest) \<noteq> Inl OutOfFuel"
      using pm px False by (simp add: tail_def map_sum_Inl_iff json_simps parse_chars_quoted)
    from Cons.prems(1) False ne have "parse_members n' (stringify_members ms @ CHR ''}'' # rest) = Inr (ms, rest)"
      by (intro Cons.IH) simp_all
    with px False show ?thesis
      unfolding n eq by (simp add: kv tail_def json_simps parse_chars_quoted)
  qed
qed

lemma parse_value_stringify:
  "num_end rest \<Longrightarrow> parse_value n (json_stringify v @ rest) \<noteq> Inl OutOfFuel \<Longrightarrow>
   parse_value n (json_stringify v @ rest) = Inr (v, rest)"
  supply json_simps [simp]
proof (induction v arbitrary: n rest)
  case JNull
  then show ?case by (cases n) (simp_all add: json_simps)
next
  case (JBool b)
  then show ?case by (cases n; cases b) (simp_all add: json_simps)
next
  case (JNum i)
  obtain n' where n: "n = Suc n'" using JNum.prems(2) by (cases n) auto
  obtain c cs where ci: "show_int i = c # cs" and c: "c = CHR ''-'' \<or> is_digit c"
    using show_int_Cons [of i] by blast
  have pn: "parse_number (show_int i @ rest) = Inr (i, rest)"
    using JNum.prems(1) by (rule parse_number_show_int)
  have pv: "parse_value (Suc n') (c # cs @ rest) =
      map_sum id (\<lambda>(i, r). (JNum i, r)) (parse_number (c # cs @ rest))"
    using c by (rule parse_value_num)
  with pn ci show ?case by (simp del: parse_value.simps add: n)
next
  case (JStr s)
  then show ?case by (cases n) (simp_all add: json_quote_def parse_chars_quoted json_simps)
next
  case (JArr xs)
  obtain n' where n: "n = Suc n'" using JArr.prems(2) by (cases n) auto
  show ?case
  proof (cases "xs = []")
    case True
    then show ?thesis by (simp add: n json_simps)
  next
    case False
    obtain c cs where hx: "stringify_elems xs @ CHR '']'' # rest = c # cs"
      and c: "\<not> is_json_ws c" "c \<noteq> CHR '']''"
      using False stringify_Cons [of "hd xs"] by (cases xs) auto
    have sk: "skip_ws (stringify_elems xs @ CHR '']'' # rest) = stringify_elems xs @ CHR '']'' # rest"
      using hx c by simp
    have "parse_elems n' (stringify_elems xs @ CHR '']'' # rest) \<noteq> Inl OutOfFuel"
      using JArr.prems(2) hx c sk by (simp add: n map_sum_Inl_iff)
    with JArr.IH False have "parse_elems n' (stringify_elems xs @ CHR '']'' # rest) = Inr (xs, rest)"
      by (intro parse_elems_stringify) auto
    with hx c sk show ?thesis by (simp add: n)
  qed
next
  case (JObj ms)
  obtain n' where n: "n = Suc n'" using JObj.prems(2) by (cases n) auto
  show ?case
  proof (cases "ms = []")
    case True
    then show ?thesis by (simp add: n json_simps)
  next
    case False
    obtain t where hx: "stringify_members ms @ CHR ''}'' # rest = dquote # t"
      using False by (cases ms) (auto simp: json_quote_def)
    have sk: "skip_ws (stringify_members ms @ CHR ''}'' # rest) = stringify_members ms @ CHR ''}'' # rest"
      by (simp only: hx) simp
    have "parse_members n' (stringify_members ms @ CHR ''}'' # rest) \<noteq> Inl OutOfFuel"
      using JObj.prems(2) sk hx by (simp add: n map_sum_Inl_iff)
    moreover have "\<forall>(k, x)\<in>set ms. \<forall>n rest. num_end rest \<longrightarrow>
             parse_value n (json_stringify x @ rest) \<noteq> Inl OutOfFuel \<longrightarrow>
             parse_value n (json_stringify x @ rest) = Inr (x, rest)"
      using JObj.IH by fastforce
    ultimately have "parse_members n' (stringify_members ms @ CHR ''}'' # rest) = Inr (ms, rest)"
      using False by (intro parse_members_stringify) auto
    with sk hx show ?thesis by (simp add: n)
  qed
qed

lemma skip_ws_prefix: "list_all is_json_ws ws \<Longrightarrow> skip_ws (ws @ s) = skip_ws s"
  by (induction ws) auto

lemma skip_ws_all: "list_all is_json_ws ws \<Longrightarrow> skip_ws ws = []"
  using skip_ws_prefix [of ws "[]"] by simp

lemma num_end_ws: "list_all is_json_ws ws \<Longrightarrow> num_end ws"
  by (cases ws) (auto simp: num_end_def json_simps)

lemma parse_value_ws_prefix:
  "list_all is_json_ws ws \<Longrightarrow> parse_value n (ws @ s) = parse_value n s"
  by (cases n) (simp_all add: skip_ws_prefix)

lemma json_parse_stringify_ws:
  assumes "list_all is_json_ws ws1" and "list_all is_json_ws ws2"
  shows "json_parse (ws1 @ json_stringify v @ ws2) = Inr v"
proof -
  let ?s = "ws1 @ json_stringify v @ ws2"
  let ?N = "2 * length ?s + 2"
  have "2 * length ?s < ?N" by simp
  then have "parse_value ?N ?s \<noteq> Inl OutOfFuel"
    using parse_fuel_enough by blast
  moreover have eq: "parse_value ?N ?s = parse_value ?N (json_stringify v @ ws2)"
    using assms(1) by (rule parse_value_ws_prefix)
  ultimately have fuel: "parse_value ?N (json_stringify v @ ws2) \<noteq> Inl OutOfFuel"
    by simp
  have "parse_value ?N (json_stringify v @ ws2) = Inr (v, ws2)"
    using num_end_ws [OF assms(2)] fuel by (rule parse_value_stringify)
  with eq have "parse_value ?N ?s = Inr (v, ws2)"
    by simp
  with assms(2) show ?thesis by (simp del: parse_value.simps add: json_parse_def skip_ws_all)
qed
lemma json_parse_stringify: "json_parse (json_stringify v) = Inr v"
  using json_parse_stringify_ws [of "[]" "[]" v] by simp

end
