(* ===== verification/Axios.thy ===== *)
theory Axios
  imports Json_Parse
begin

text \<open>
  The part of the axios library that the script's single call runs through: the request
  it builds for \<open>axios.post(url, data, config)\<close> (header merging as AxiosHeaders does
  it, the default \<open>transformRequest\<close>, the headers the Node http adapter adds), and what
  it makes of the transport's answer (\<open>transformResponse\<close>, \<open>settle\<close> with the
  default \<open>validateStatus\<close>). axios is not part of the repository: these definitions
  follow its documented behaviour.
\<close>

section \<open>HTTP messages\<close>

datatype http_method = GET | POST | PUT | PATCH | DELETE

record http_request =
  req_method :: http_method
  req_url :: string
  req_headers :: headers
  req_body :: string

section \<open>AxiosHeaders: case-insensitive header lists\<close>

fun header_get :: "string \<Rightarrow> headers \<Rightarrow> string option" where
  "header_get k [] = None"
| "header_get k ((k', v) # hs) = (if lower k' = lower k then Some v else header_get k hs)"

text \<open>
  \<open>AxiosHeaders.set(name, value, rewrite)\<close>: a header already present under any
  casing keeps its position and its name's casing; its value is replaced only when
  \<open>rewrite\<close> holds. A new header is appended.
\<close>

fun header_set :: "bool \<Rightarrow> string \<Rightarrow> string \<Rightarrow> headers \<Rightarrow> headers" where
  "header_set rw k v [] = [(k, v)]"
| "header_set rw k v ((k', v') # hs) =
     (if lower k' = lower k then (if rw then (k', v) # hs else (k', v') # hs)
      else (k', v') # header_set rw k v hs)"

definition header_merge :: "headers \<Rightarrow> headers \<Rightarrow> headers" where
  "header_merge base user = fold (\<lambda>(k, v) hs. header_set True k v hs) user base"

text \<open>
  The abstract view of a header list: what a lookup by any name returns. The refinement
  lemmas below say how each operation changes this view, as a map from names compared
  case-insensitively.
\<close>

definition header_view :: "headers \<Rightarrow> string \<Rightarrow> string option" where
  "header_view hs = (\<lambda>k. header_get k hs)"

section \<open>Building the request\<close>

record post_config =
  cfg_headers :: headers

definition axios_default_headers :: headers where
  "axios_default_headers = [(''Accept'', ''application/json, text/plain, */*'')]"

definition axios_post :: "string \<Rightarrow> json \<Rightarrow> post_config \<Rightarrow> http_request" where
  "axios_post u data cfg =
     (let hs0 = header_merge axios_default_headers (cfg_headers cfg);
          body = json_stringify data;
          hs1 = header_set False ''Content-Type'' ''application/json'' hs0;
          hs2 = header_set False ''User-Agent'' ''axios'' hs1;
          hs3 = header_set False ''Accept-Encoding'' ''gzip, compress, deflate, br'' hs2;
          hs4 = header_set False ''Content-Length'' (show_nat (length body)) hs3
      in \<lparr>req_method = POST, req_url = u, req_headers = hs4, req_body = body\<rparr>)"

section \<open>Reading the answer\<close>

datatype resp_data = DataJson json | DataText string

record axios_response =
  resp_status :: nat
  resp_data :: resp_data

record axios_error =
  err_message :: string
  err_code :: "string option"
  err_response :: "axios_response option"

datatype transport_outcome = Reply nat string | NetFailure string string

definition transform_response :: "string \<Rightarrow> resp_data" where
  "transform_response body = (case json_parse body of Inr v \<Rightarrow> DataJson v | Inl _ \<Rightarrow> DataText body)"

definition validate_status :: "nat \<Rightarrow> bool" where
  "validate_status st \<longleftrightarrow> 200 \<le> st \<and> st < 300"

definition status_error_code :: "nat \<Rightarrow> string option" where
  "status_error_code st =
     (if st div 100 = 4 then Some ''ERR_BAD_REQUEST''
      else if st div 100 = 5 then Some ''ERR_BAD_RESPONSE'' else None)"

fun axios_settle :: "transport_outcome \<Rightarrow> axios_error + axios_response" where
  "axios_settle (Reply st body) =
     (let r = \<lparr>resp_status = st, resp_data = transform_response body\<rparr> in
      if st = 0 \<or> validate_status st then Inr r
      else Inl \<lparr>err_message = ''Request failed with status code '' @ show_nat st,
                err_code = status_error_code st, err_response = Some r\<rparr>)"
| "axios_settle (NetFailure code msg) =
     Inl \<lparr>err_message = msg, err_code = Some code, err_response = None\<rparr>"

section \<open>Header lemmas\<close>

lemma header_get_set_same [header_simps]: "header_get k (header_set True k v hs) = Some v"
  by (induction hs) auto

lemma header_get_set_other [header_simps]:
  "lower k' \<noteq> lower k \<Longrightarrow> header_get k (header_set rw k' v hs) = header_get k hs"
  by (induction hs) auto

lemma header_get_set_keep:
  "header_get k hs = Some w \<Longrightarrow> header_get k (header_set False k' v hs) = Some w"
  by (induction hs) (auto split: if_splits)

lemma header_get_set_new:
  "header_get k hs = None \<Longrightarrow> lower k' = lower k \<Longrightarrow> header_get k (header_set rw k' v hs) = Some v"
  by (induction hs) (auto split: if_splits)

lemma header_get_merge:
  assumes "distinct (map (lower \<circ> fst) user)" and "(k, v) \<in> set user"
  shows "header_get k (header_merge base user) = Some v"
  using assms
proof (induction user arbitrary: base)
  case Nil
  then show ?case by simp
next
  case (Cons kv user)
  obtain k1 v1 where kv: "kv = (k1, v1)" by (cases kv)
  let ?base' = "header_set True k1 v1 base"
  have merge: "header_merge base (kv # user) = header_merge ?base' user"
    by (simp add: header_merge_def kv)
  show ?case
  proof (cases "(k, v) \<in> set user")
    case True
    with Cons.prems(1) have "header_get k (header_merge ?base' user) = Some v"
      by (intro Cons.IH) simp_all
    with merge show ?thesis by simp
  next
    case False
    with Cons.prems(2) kv have kv1: "k1 = k" "v1 = v" by auto
    from Cons.prems(1) kv kv1 have fresh: "\<forall>(k', v') \<in> set user. lower k' \<noteq> lower k"
      by (auto simp: image_iff)
    have "header_get k (fold (\<lambda>(k, v) hs. header_set True k v hs) user hs) = header_get k hs"
      if "\<forall>(k', v') \<in> set user. lower k' \<noteq> lower k" for hs
      using that by (induction user arbitrary: hs) (auto simp: header_get_set_other)
    with fresh have "header_get k (header_merge ?base' user) = header_get k ?base'"
      by (simp add: header_merge_def)
    with merge kv1 show ?thesis by (simp add: header_get_set_same)
  qed
qed

lemma header_get_axios_post:
  assumes "distinct (map (lower \<circ> fst) (cfg_headers cfg))" and "(k, v) \<in> set (cfg_headers cfg)"
  shows "header_get k (req_headers (axios_post u d cfg)) = Some v"
proof -
  have "header_get k (header_merge axios_default_headers (cfg_headers cfg)) = Some v"
    using assms by (rule header_get_merge)
  then show ?thesis by (simp add: axios_post_def Let_def header_get_set_keep)
qed

lemma axios_post_fields:
  "req_method (axios_post u d cfg) = POST"
  "req_url (axios_post u d cfg) = u"
  "req_body (axios_post u d cfg) = json_stringify d"
  by (simp_all add: axios_post_def Let_def)

lemma header_get_merge_absent:
  "header_get k base = None \<Longrightarrow> header_get k user = None \<Longrightarrow> header_get k (header_merge base user) = None"
proof (induction user arbitrary: base)
  case Nil
  then show ?case by (simp add: header_merge_def)
next
  case (Cons kv user)
  obtain k1 v1 where kv: "kv = (k1, v1)" by (cases kv)
  from Cons.prems(2) kv have ne: "lower k1 \<noteq> lower k" and rest: "header_get k user = None"
    by (auto split: if_splits)
  from Cons.prems(1) ne have "header_get k (header_set True k1 v1 base) = None"
    by (simp add: header_get_set_other)
  from this rest have "header_get k (header_merge (header_set True k1 v1 base) user) = None"
    by (rule Cons.IH)
  with kv show ?case by (simp add: header_merge_def)
qed

lemma axios_post_content_length:
  assumes "header_get ''Content-Length'' (cfg_headers cfg) = None"
  shows "header_get ''Content-Length'' (req_headers (axios_post u d cfg)) = Some (show_nat (length (json_stringify d)))"
proof -
  have base: "header_get ''Content-Length'' axios_default_headers = None"
    by (simp add: axios_default_headers_def header_simps)
  let ?hs0 = "header_merge axios_default_headers (cfg_headers cfg)"
  have "header_get ''Content-Length'' ?hs0 = None"
    using base assms by (rule header_get_merge_absent)
  then have "header_get ''Content-Length''
      (header_set False ''Accept-Encoding'' ''gzip, compress, deflate, br''
        (header_set False ''User-Agent'' ''axios''
          (header_set False ''Content-Type'' ''application/json'' ?hs0))) = None"
    by (simp add: header_simps)
  then show ?thesis by (simp add: axios_post_def Let_def header_get_set_new)
qed

section \<open>Refinement: header operations on the abstract view\<close>

lemma header_get_lower: "header_get (lower k) hs = header_get k hs"
proof -
  have "lower (lower k) = lower k" by (simp add: header_simps comp_def)
  then show ?thesis by (induction hs) auto
qed

lemma header_view_set_rewrite:
  "header_view (header_set True k v hs) = (\<lambda>k'. if lower k' = lower k then Some v else header_view hs k')"
  unfolding header_view_def by (rule ext) (induction hs, auto)

lemma header_view_set_keep:
  "header_view (header_set False k v hs) =
     (\<lambda>k'. if lower k' = lower k \<and> header_view hs k' = None then Some v else header_view hs k')"
  unfolding header_view_def by (rule ext) (induction hs, auto)

lemma header_view_merge:
  "header_view (header_merge base user) =
     (\<lambda>k. case header_get k (rev user) of Some v \<Rightarrow> Some v | None \<Rightarrow> header_view base k)"
proof (induction user arbitrary: base rule: rev_induct)
  case Nil
  then show ?case by (simp add: header_merge_def header_view_def)
next
  case (snoc kv user)
  obtain k v where kv: "kv = (k, v)" by (cases kv)
  have "header_merge base (user @ [kv]) = header_set True k v (header_merge base user)"
    by (simp add: header_merge_def kv)
  then show ?case using snoc.IH
    by (auto simp: kv header_view_set_rewrite fun_eq_iff split: option.splits)
qed
end
