(* ===== verification/Faucet.thy ===== *)
theory Faucet
  imports Axios
begin

text \<open>
  The constants of \<^verbatim>\<open>src/index.js\<close> and the request its one call builds: the URL
  (line 3), the payload object (lines 4--9), the header object (lines 11--21), the config
  object passed at line 24, and \<open>axios.post(url, payload, { headers: headers })\<close>.
\<close>

section \<open>The constants of the script\<close>

definition url :: string where
  "url = ''https://api.story.faucetme.pro/wallet/request-token''"

record payload =
  address :: string
  denom :: string
  rolesId :: "json list"
  userId :: string

definition faucet_payload :: payload where
  "faucet_payload =
     \<lparr>address = ''0x28f9d26a2089aa42b11CA8a9ACaB14b9922Ec231'', denom = ''IP'',
      rolesId = [], userId = ''1268237438560764026''\<rparr>"

text \<open>The payload as the JavaScript object literal it is: keys in source order.\<close>

definition payload_json :: "payload \<Rightarrow> json" where
  "payload_json p =
     JObj [(''address'', JStr (address p)), (''denom'', JStr (denom p)),
           (''rolesId'', JArr (rolesId p)), (''userId'', JStr (userId p))]"

definition headers :: headers where
  "headers =
     [(''Content-Type'', ''application/json''),
      (''Authorization'', ''Bearer 196595|2xaMS9Ih5gi7f2VQGxqrEgF7jBHhVd''),
      (''Accept'', ''*/*''),
      (''Accept-Encoding'', ''gzip, deflate, br, zstd''),
      (''Accept-Language'', ''vi,en-US;q=0.9,en;q=0.8''),
      (''Origin'', ''https://story.faucetme.pro''),
      (''Referer'', ''https://story.faucetme.pro/''),
      (''User-Agent'',
       ''Mozilla/5.0 (Windows NT 10.0; Win64; x64) AppleWebKit/537.36 (KHTML, like Gecko) Chrome/128.0.0.0 Safari/537.36 Edg/128.0.0.0'')]"

definition request_config :: post_config where
  "request_config = \<lparr>cfg_headers = headers\<rparr>"

section \<open>The call\<close>

definition post_payload :: "payload \<Rightarrow> http_request" where
  "post_payload p = axios_post url (payload_json p) request_config"

definition issue_request :: http_request where
  "issue_request = post_payload faucet_payload"

section \<open>Properties of the request\<close>

lemma headers_distinct: "distinct (map (lower \<circ> fst) headers)"
  by (simp add: headers_def header_simps)

lemmas request_simps = issue_request_def post_payload_def axios_post_fields

text \<open>
  C7. Whatever the payload's field values, the body that the call at line 24 sends is
  JSON text that \<open>JSON.parse\<close> reads back as exactly the payload object.
\<close>

theorem post_payload_roundtrip: "json_parse (req_body (post_payload p)) = Inr (payload_json p)"
  by (simp add: post_payload_def axios_post_fields json_parse_stringify)

text \<open>
  C8. The body of the script's request is, byte for byte, the JSON text of the payload
  literal: the four keys in source order and no whitespace.
\<close>

theorem issue_request_body:
  "req_body issue_request =
   ''{\"address\":\"0x28f9d26a2089aa42b11CA8a9ACaB14b9922Ec231\",\"denom\":\"IP\",\"rolesId\":[],\"userId\":\"1268237438560764026\"}''"
  by (simp add: request_simps payload_json_def faucet_payload_def json_quote_def json_escape_def)

text \<open>
  C1. Parsed as JSON, the body has exactly the keys address, denom, rolesId and userId,
  with the literal values of the source (spec property P1).
\<close>

theorem issue_request_parsed:
  "json_parse (req_body issue_request) =
   Inr (JObj [(''address'', JStr ''0x28f9d26a2089aa42b11CA8a9ACaB14b9922Ec231''),
              (''denom'', JStr ''IP''), (''rolesId'', JArr []),
              (''userId'', JStr ''1268237438560764026'')])"
proof -
  have "json_parse (req_body issue_request) = Inr (payload_json faucet_payload)"
    by (simp only: issue_request_def post_payload_def axios_post_fields json_parse_stringify)
  then show ?thesis by (simp add: payload_json_def faucet_payload_def)
qed

text \<open>
  C2. Every header of the source's header object reaches the request with its exact
  value, looked up case-insensitively as HTTP does: none is replaced by an axios default
  (spec property P2).
\<close>

theorem issue_request_headers:
  "\<forall>(k, v) \<in> set headers. header_get k (req_headers issue_request) = Some v"
proof (intro ballI, clarify)
  fix k v
  assume "(k, v) \<in> set headers"
  then show "header_get k (req_headers issue_request) = Some v"
    using headers_distinct
    by (simp add: issue_request_def post_payload_def request_config_def header_get_axios_post)
qed

text \<open>An instance of C2: the source's \<open>Accept\<close> value overrides axios's default.\<close>

theorem issue_request_headers_witness:
  "(''Accept'', ''*/*'') \<in> set headers \<and> header_get ''Accept'' (req_headers issue_request) = Some ''*/*''"
proof -
  have mem: "(''Accept'', ''*/*'') \<in> set headers" by (simp add: headers_def)
  with issue_request_headers have "header_get ''Accept'' (req_headers issue_request) = Some ''*/*''"
    by blast
  with mem show ?thesis by blast
qed


text \<open>
  C18. Besides the source's headers the request carries a Content-Length header, set by
  axios to the body's length, 113 bytes; the source sets none.
\<close>

theorem issue_request_content_length:
  "header_get ''Content-Length'' (req_headers issue_request) = Some (show_nat (length (req_body issue_request))) \<and>
   length (req_body issue_request) = 113"
proof -
  have none: "header_get ''Content-Length'' (cfg_headers request_config) = None"
    by (simp add: request_config_def headers_def header_simps)
  have "header_get ''Content-Length'' (req_headers issue_request) = Some (show_nat (length (req_body issue_request)))"
    using axios_post_content_length [OF none] by (simp add: request_simps)
  moreover have "length (req_body issue_request) = 113"
    by (simp add: request_simps payload_json_def faucet_payload_def json_quote_def json_escape_def)
  ultimately show ?thesis by blast
qed



end
