(* ===== verification/Program.thy ===== *)
theory Program
  imports Faucet
begin

text \<open>
  Lines 23--26 of \<^verbatim>\<open>src/index.js\<close>: the promise chain
  \<open>axios.post(...).then(onFulfilled).catch(onRejected)\<close>, the two handlers and what
  they write to the console, and the program's run as a state machine. The transport's
  answer is the environment's choice: any \<open>transport_outcome\<close>.
\<close>

section \<open>Console output\<close>

datatype stream = Stdout | Stderr

datatype console_arg = ArgStr string | ArgData resp_data | ArgError axios_error

type_synonym console_entry = "stream \<times> console_arg list"

section \<open>The handlers and the chain\<close>

text \<open>Line 25: \<open>(response) => console.log(response.data)\<close>.\<close>

definition on_fulfilled :: "axios_response \<Rightarrow> console_entry" where
  "on_fulfilled response = (Stdout, [ArgData (resp_data response)])"

text \<open>Line 26: \<open>(error) => console.error("Error:", error)\<close>.\<close>

definition on_rejected :: "axios_error \<Rightarrow> console_entry" where
  "on_rejected error = (Stderr, [ArgStr ''Error:'', ArgError error])"

text \<open>
  \<open>.then(onFulfilled).catch(onRejected)\<close> on the settled request promise: a fulfilled
  promise runs only the first handler, a rejected one skips \<open>then\<close> and runs the
  second.
\<close>

definition promise_chain :: "axios_error + axios_response \<Rightarrow> console_entry" where
  "promise_chain res = (case res of Inr response \<Rightarrow> on_fulfilled response | Inl error \<Rightarrow> on_rejected error)"

section \<open>The run as a state machine\<close>

datatype phase = Start | Pending | Succeeded | Failed

record prog_state =
  phase :: phase
  sent :: "http_request list"
  console :: "console_entry list"

definition init_state :: prog_state where
  "init_state = \<lparr>phase = Start, sent = [], console = []\<rparr>"

text \<open>Evaluating line 24: the request goes out and the chain waits.\<close>

definition send_step :: "prog_state \<Rightarrow> prog_state" where
  "send_step s = s\<lparr>phase := Pending, sent := sent s @ [issue_request]\<rparr>"

text \<open>The transport answers; axios settles the promise and the chain's handler runs.\<close>

definition settle_step :: "transport_outcome \<Rightarrow> prog_state \<Rightarrow> prog_state" where
  "settle_step out s =
     (let res = axios_settle out in
      s\<lparr>phase := (case res of Inr _ \<Rightarrow> Succeeded | Inl _ \<Rightarrow> Failed),
        console := console s @ [promise_chain res]\<rparr>)"

inductive prog_step :: "prog_state \<Rightarrow> prog_state \<Rightarrow> bool" where
  send: "phase s = Start \<Longrightarrow> prog_step s (send_step s)"
| settle: "phase s = Pending \<Longrightarrow> prog_step s (settle_step out s)"

inductive reachable :: "prog_state \<Rightarrow> bool" where
  init: "reachable init_state"
| step: "reachable s \<Longrightarrow> prog_step s t \<Longrightarrow> reachable t"

definition run_program :: "transport_outcome \<Rightarrow> prog_state" where
  "run_program out = settle_step out (send_step init_state)"

definition terminal :: "prog_state \<Rightarrow> bool" where
  "terminal s \<longleftrightarrow> phase s = Succeeded \<or> phase s = Failed"

inductive_cases prog_step_cases: "prog_step s t"

section \<open>Lemmas on the steps\<close>

lemma send_step_fields [simp]:
  "phase (send_step s) = Pending" "sent (send_step s) = sent s @ [issue_request]"
  "console (send_step s) = console s"
  by (simp_all add: send_step_def)

lemma settle_step_fields [simp]:
  "phase (settle_step out s) = (case axios_settle out of Inr _ \<Rightarrow> Succeeded | Inl _ \<Rightarrow> Failed)"
  "sent (settle_step out s) = sent s"
  "console (settle_step out s) = console s @ [promise_chain (axios_settle out)]"
  by (simp_all add: settle_step_def Let_def)

lemma settle_step_terminal: "terminal (settle_step out s)"
  by (simp add: terminal_def split: sum.split)

lemma init_state_fields [simp]:
  "phase init_state = Start" "sent init_state = []" "console init_state = []"
  by (simp_all add: init_state_def)

lemma prog_step_from_Start: "prog_step s t \<Longrightarrow> phase s = Start \<Longrightarrow> t = send_step s"
  by (auto elim: prog_step_cases)

lemma prog_step_from_Pending: "prog_step s t \<Longrightarrow> phase s = Pending \<Longrightarrow> \<exists>out. t = settle_step out s"
  by (auto elim: prog_step_cases)

lemma terminal_no_step: "terminal s \<Longrightarrow> \<not> prog_step s t"
  by (auto simp: terminal_def elim: prog_step_cases)

lemma reachable_run_program: "reachable (run_program out)"
proof -
  have "reachable (send_step init_state)"
    by (rule reachable.step [OF reachable.init]) (rule prog_step.send, simp)
  then show ?thesis unfolding run_program_def
    by (rule reachable.step) (rule prog_step.settle, simp)
qed

lemma reachable_shapes:
  "reachable s \<Longrightarrow> s = init_state \<or> s = send_step init_state \<or> (\<exists>out. s = run_program out)"
proof (induction rule: reachable.induct)
  case init
  then show ?case by simp
next
  case (step s t)
  from step.IH show ?case
  proof (elim disjE exE)
    assume "s = init_state"
    with step.hyps(2) show ?thesis by (auto dest: prog_step_from_Start)
  next
    assume "s = send_step init_state"
    with step.hyps(2) show ?thesis by (auto simp: run_program_def dest: prog_step_from_Pending)
  next
    fix out
    assume "s = run_program out"
    with step.hyps(2) terminal_no_step [OF settle_step_terminal] show ?thesis
      by (auto simp: run_program_def)
  qed
qed

lemma run_program_sent [simp]: "sent (run_program out) = [issue_request]"
  by (simp add: run_program_def)

lemma run_program_console:
  "console (run_program out) = [promise_chain (axios_settle out)]"
  by (simp add: run_program_def)

lemma run_program_terminal: "terminal (run_program out)"
  by (simp add: run_program_def settle_step_terminal)

section \<open>Properties of the run\<close>

text \<open>
  C9. The step relation and the straight-line run agree: the states the program can reach
  are the initial one, the one waiting on the request, and the final state of
  \<open>run_program\<close> for some answer of the transport.
\<close>

theorem reachable_iff:
  "reachable s \<longleftrightarrow> s = init_state \<or> s = send_step init_state \<or> (\<exists>out. s = run_program out)"
proof
  assume "reachable s"
  then show "s = init_state \<or> s = send_step init_state \<or> (\<exists>out. s = run_program out)"
    by (rule reachable_shapes)
next
  assume "s = init_state \<or> s = send_step init_state \<or> (\<exists>out. s = run_program out)"
  then show "reachable s"
  proof (elim disjE exE)
    assume "s = init_state"
    then show ?thesis by (simp add: reachable.init)
  next
    assume "s = send_step init_state"
    have "prog_step init_state (send_step init_state)" by (rule prog_step.send) simp
    with \<open>s = send_step init_state\<close> show ?thesis by (simp add: reachable.step [OF reachable.init])
  next
    fix out
    assume "s = run_program out"
    then show ?thesis by (simp add: reachable_run_program)
  qed
qed

text \<open>
  C5. In every reachable state the program has issued at most one request, and that one
  is the script's request: no retry, no duplicate send (spec property P5).
\<close>

theorem single_request: "reachable s \<Longrightarrow> sent s = [] \<or> sent s = [issue_request]"
  by (auto dest: reachable_shapes)

theorem single_request_witness:
  "reachable (run_program (NetFailure ''ECONNREFUSED'' ''connect ECONNREFUSED'')) \<and>
   sent (run_program (NetFailure ''ECONNREFUSED'' ''connect ECONNREFUSED'')) = [issue_request]"
proof -
  have r: "reachable (run_program (NetFailure ''ECONNREFUSED'' ''connect ECONNREFUSED''))"
    by (rule reachable_run_program)
  from single_request [OF r] show ?thesis using r by simp
qed

text \<open>
  C10. Every step moves forward through Start, Pending and a final phase: the request is
  sent from Start, the chain settles from Pending into Succeeded or Failed, and nothing
  leaves a final phase.
\<close>

theorem step_forward:
  "prog_step s t \<Longrightarrow> (phase s = Start \<and> phase t = Pending) \<or> (phase s = Pending \<and> terminal t)"
  by (auto elim: prog_step_cases simp: settle_step_terminal)

theorem step_forward_witness:
  "prog_step init_state (send_step init_state) \<and>
   phase init_state = Start \<and> phase (send_step init_state) = Pending"
proof -
  have st: "prog_step init_state (send_step init_state)" by (rule prog_step.send) simp
  from step_forward [OF st] st show ?thesis by (auto simp: terminal_def)
qed



text \<open>
  C12. A run that has ended has sent exactly the script's request and written exactly one
  console entry: on standard output through the fulfilment handler when it succeeded, on
  standard error through the rejection handler when it failed.
\<close>

theorem terminal_outputs:
  "reachable s \<Longrightarrow> terminal s \<Longrightarrow>
   sent s = [issue_request] \<and>
   ((phase s = Succeeded \<and> (\<exists>r. console s = [on_fulfilled r])) \<or>
    (phase s = Failed \<and> (\<exists>e. console s = [on_rejected e])))"
  by (auto dest!: reachable_shapes simp: terminal_def run_program_def settle_step_def Let_def
      promise_chain_def split: sum.splits)

theorem terminal_outputs_witness:
  "reachable (run_program (Reply 200 [])) \<and> terminal (run_program (Reply 200 [])) \<and>
   sent (run_program (Reply 200 [])) = [issue_request]"
  using terminal_outputs [OF reachable_run_program run_program_terminal, of "Reply 200 []"]
    reachable_run_program run_program_terminal by blast

text \<open>
  C16. Whatever is written to standard error is the pair of arguments of line 26: the
  literal label \<open>Error:\<close> followed by the error object (spec property P4).
\<close>

theorem stderr_label:
  "reachable s \<Longrightarrow> (Stderr, args) \<in> set (console s) \<Longrightarrow> \<exists>e. args = [ArgStr ''Error:'', ArgError e]"
  by (auto dest!: reachable_shapes simp: run_program_def settle_step_def Let_def promise_chain_def
      on_fulfilled_def on_rejected_def split: sum.splits)

theorem stderr_label_witness:
  "reachable (run_program (NetFailure ''ETIMEDOUT'' ''timeout'')) \<and>
   (Stderr, [ArgStr ''Error:'', ArgError \<lparr>err_message = ''timeout'', err_code = Some ''ETIMEDOUT'', err_response = None\<rparr>])
     \<in> set (console (run_program (NetFailure ''ETIMEDOUT'' ''timeout''))) \<and>
   (\<exists>e. [ArgStr ''Error:'', ArgError \<lparr>err_message = ''timeout'', err_code = Some ''ETIMEDOUT'', err_response = None\<rparr>]
        = [ArgStr ''Error:'', ArgError e])"
proof -
  let ?s = "run_program (NetFailure ''ETIMEDOUT'' ''timeout'')"
  let ?args = "[ArgStr ''Error:'', ArgError \<lparr>err_message = ''timeout'', err_code = Some ''ETIMEDOUT'', err_response = None\<rparr>]"
  have r: "reachable ?s" by (rule reachable_run_program)
  have m: "(Stderr, ?args) \<in> set (console ?s)"
    by (simp add: run_program_console promise_chain_def on_rejected_def)
  from stderr_label [OF r m] r m show ?thesis by blast
qed

end
