(* ===== verification/Spec2Isabelle.thy ===== *)
theory Spec2Isabelle
  imports Program
begin

text \<open>
  \<^bold>\<open>A verification model of khanh1084/story-node.\<close>

  \<^bold>\<open>The program.\<close> \<^verbatim>\<open>src/index.js\<close> is a Node script of 26 lines. It declares a URL
  (line 3), a payload object with the keys address, denom, rolesId and userId
  (lines 4--9) and a header object of eight headers (lines 11--21), calls
  \<open>axios.post(url, payload, { headers: headers })\<close> once (line 24), and chains
  \<open>.then(response => console.log(response.data))\<close> (line 25) and
  \<open>.catch(error => console.error("Error:", error))\<close> (line 26). Its parts interact
  through that one call: the script's constants flow into axios, axios serialises the
  payload with \<open>JSON.stringify\<close>, merges the headers with its defaults, sends the
  request, and settles the promise from the transport's answer; the chain's handlers
  then write one console entry.

  \<^bold>\<open>Theories and what they model.\<close>
  \<^item> \<open>Prelude\<close>: the types of header lists, decimal and hexadecimal digit text,
    ASCII case folding, and generic lemmas on digit strings and lists.
  \<^item> \<open>Json\<close>: JSON documents (\<open>json\<close>, integral numbers, byte strings) and
    \<open>json_stringify\<close>, the model of \<open>JSON.stringify\<close> with its escaping of quotes,
    backslashes and control characters (\<open>json_escape\<close>).
  \<^item> \<open>Json_Parse\<close>: \<open>json_parse\<close>, the model of \<open>JSON.parse\<close> (whitespace, escapes
    with \<open>\u\<close>, integers, literals, arrays, objects, trailing text), with an error type
    \<open>parse_error\<close> that keeps syntax errors, features the model does not represent
    (\<open>Unsupported\<close>: fractions, exponents, code points above 255) and fuel exhaustion
    apart. The parser runs on fuel; \<open>parse_fuel_enough\<close> shows that twice the input
    length is enough, so \<open>json_parse\<close> (which gives \<open>2 * length s + 2\<close>) never
    reports \<open>OutOfFuel\<close>. \<open>json_parse_stringify\<close> is the round trip
    \<open>json_parse (json_stringify v) = Inr v\<close> for every document.
  \<^item> \<open>Axios\<close>: the library behaviour the call runs through, modelled from its
    documented behaviour since axios is not in the repository: \<open>header_set\<close> and
    \<open>header_get\<close> (AxiosHeaders: case-insensitive names, the first casing kept, the
    \<open>rewrite\<close> flag), \<open>header_merge\<close>, \<open>axios_post\<close> (defaults, then the user's
    headers, then \<open>transformRequest\<close>'s Content-Type and the Node adapter's User-Agent,
    Accept-Encoding and Content-Length, each set only when absent), and the answer side:
    \<open>transform_response\<close> (\<open>JSON.parse\<close> of the body, the raw text when that fails),
    \<open>validate_status\<close> (2xx) and \<open>axios_settle\<close> (a 0 or 2xx status fulfils,
    another status rejects with "Request failed with status code N", a transport failure
    rejects with the transport's code and message).
  \<^item> \<open>Faucet\<close>: the script's constants \<open>url\<close>, \<open>payload\<close> (a record) with
    \<open>faucet_payload\<close> and \<open>payload_json\<close> (the object literal), \<open>headers\<close>,
    \<open>request_config\<close>, and the call: \<open>post_payload p\<close> is line 24 for any payload,
    \<open>issue_request\<close> the request the script sends.
  \<^item> \<open>Program\<close>: lines 23--26. \<open>on_fulfilled\<close> and \<open>on_rejected\<close> are the two
    handlers, \<open>promise_chain\<close> the \<open>.then/.catch\<close> composition on the settled
    promise. The run is a state machine: a \<open>prog_state\<close> records the promise's
    \<open>phase\<close> (Start, Pending, Succeeded, Failed), the requests \<open>sent\<close> and the
    \<open>console\<close> entries written; \<open>prog_step\<close> has one rule for evaluating line 24
    (\<open>send_step\<close>) and one for the transport's answer settling the chain
    (\<open>settle_step\<close>, any \<open>transport_outcome\<close>); \<open>reachable\<close> is its reachable set
    and \<open>run_program\<close> the straight-line run for a given answer.
  \<^item> this theory: the end-to-end properties of a run, from the transport's answer to the
    console.

  \<^bold>\<open>What the lemmas show.\<close> For the request (\<open>Faucet\<close>): the body is the JSON text of
  the payload, byte for byte, and parses back to it for every payload; each of the eight
  source headers arrives with its value, none overridden by an axios default; method and
  target; Content-Length. For the run (\<open>Program\<close>): the reachable states are exactly
  those of the straight-line run (a refinement of the step relation by
  \<open>run_program\<close>); at most one request is ever sent; every step moves forward and
  the run ends within two steps; a finished run wrote exactly one entry, on stdout when it
  succeeded and on stderr, labelled \<open>Error:\<close>, when it failed. End to end (here): the
  success path, the two failure paths, the status ranges that succeed, the logged value
  of a JSON reply, and that every run sends the same request.

  \<^bold>\<open>Bounds and fuel.\<close> The only fuel is the parser's: \<open>2 * length s + 2\<close>. It is
  enough because every nested call consumes input (\<open>parse_consumes\<close>), and arrays
  and objects spend one unit per element on top of their values' (\<open>parse_fuel_enough\<close>).
  More fuel never changes a result that did not run out (\<open>parse_fuel_mono\<close>), so
  \<open>json_parse\<close> is the parser's meaning independently of the fuel chosen
  (\<open>parse_value_fuel_independent\<close>). HTTP statuses and lengths are \<open>nat\<close>:
  the program does no machine-width arithmetic.

  \<^bold>\<open>Plan.\<close> Done: the script's constants, the call and the chain (Faucet, Program), with
  the JSON printer and parser and the axios request and response paths they run through
  (Json, Json_Parse, Axios), and an abstract, map-level view of AxiosHeaders
  (\<open>header_view\<close>) with refinement lemmas for \<open>header_set\<close> and
  \<open>header_merge\<close>. Next, in this order:
  (1) Node's rendering of the logged values (\<open>util.format\<close> with a string first
      argument, \<open>util.inspect\<close> of the JSON data and of the error), so that the
      written lines themselves, not only their arguments, are the subject of P3 and P4;
  (2) the parser's error paths as claims on the run (bodies that are cut short, or use
      number forms the model does not represent);
  (3) JSON.parse's handling of duplicate object keys (the last one wins) in the logged
      object;
  (4) the request side under other payloads: which field values keep the body within a
      given Content-Length, and escaping of control characters in the fields.

  \<^bold>\<open>Not modelled.\<close> The network itself (the transport's answer is a free
  \<open>transport_outcome\<close>); how Node renders console arguments (\<open>util.inspect\<close>): the
  model records the arguments passed to \<open>console.log\<close> and \<open>console.error\<close>;
  JavaScript numbers beyond integers and UTF-16 strings (bytes here); axios's request
  and response interceptors, timeouts, redirects and proxies, which the script does not
  configure; the \<open>require\<close> on line 1.
\<close>

section \<open>End-to-end behaviour of a run\<close>

lemmas run_simps = run_program_console promise_chain_def on_fulfilled_def on_rejected_def Let_def

text \<open>
  C3. Given a 2xx reply, the run fulfils and writes one entry on standard output: the
  reply's data as axios's \<open>transformResponse\<close> delivered it, and nothing on standard
  error (spec property P3).
\<close>

theorem success_path:
  "200 \<le> st \<Longrightarrow> st < 300 \<Longrightarrow>
   console (run_program (Reply st body)) = [(Stdout, [ArgData (transform_response body)])] \<and>
   phase (run_program (Reply st body)) = Succeeded"
  by (simp add: run_simps validate_status_def run_program_def)

theorem success_path_witness:
  "(200::nat) \<le> 200 \<and> (200::nat) < 300 \<and>
   console (run_program (Reply 200 (json_stringify (JObj [(''ok'', JBool True)])))) =
     [(Stdout, [ArgData (DataJson (JObj [(''ok'', JBool True)]))])]"
proof -
  have "console (run_program (Reply 200 (json_stringify (JObj [(''ok'', JBool True)])))) =
      [(Stdout, [ArgData (transform_response (json_stringify (JObj [(''ok'', JBool True)])))])]"
    using success_path [of 200 "json_stringify (JObj [(''ok'', JBool True)])"] by simp
  moreover have "transform_response (json_stringify (JObj [(''ok'', JBool True)])) =
      DataJson (JObj [(''ok'', JBool True)])"
    by (simp only: transform_response_def json_parse_stringify sum.case)
  ultimately show ?thesis by simp
qed

text \<open>
  C4. When the transport fails (no reply: refused connection, TLS failure, timeout), the
  run rejects and writes one entry on standard error: the label \<open>Error:\<close> and the
  error carrying the transport's code and message; nothing reaches standard output and
  nothing is retried (spec property P4).
\<close>

theorem network_failure_path:
  "console (run_program (NetFailure code msg)) =
     [(Stderr, [ArgStr ''Error:'', ArgError \<lparr>err_message = msg, err_code = Some code, err_response = None\<rparr>])] \<and>
   phase (run_program (NetFailure code msg)) = Failed \<and>
   sent (run_program (NetFailure code msg)) = [issue_request]"
  by (simp add: run_simps run_program_def)

text \<open>
  C13. A reply outside 2xx (and not 0) rejects: the entry on standard error carries axios's
  message "Request failed with status code N", the class code for 4xx and 5xx, and the
  transformed reply.
\<close>

theorem http_error_path:
  "0 < st \<Longrightarrow> \<not> validate_status st \<Longrightarrow>
   console (run_program (Reply st body)) =
     [(Stderr, [ArgStr ''Error:'',
        ArgError \<lparr>err_message = ''Request failed with status code '' @ show_nat st,
                  err_code = status_error_code st,
                  err_response = Some \<lparr>resp_status = st, resp_data = transform_response body\<rparr>\<rparr>])]"
  by (simp add: run_simps)

theorem http_error_path_witness:
  "0 < (404::nat) \<and> \<not> validate_status 404 \<and>
   console (run_program (Reply 404 ''Not Found'')) =
     [(Stderr, [ArgStr ''Error:'',
        ArgError \<lparr>err_message = ''Request failed with status code 404'',
                  err_code = Some ''ERR_BAD_REQUEST'',
                  err_response = Some \<lparr>resp_status = 404, resp_data = transform_response ''Not Found''\<rparr>\<rparr>])]"
proof -
  have h: "0 < (404::nat)" "\<not> validate_status 404" by (simp_all add: validate_status_def)
  have "show_nat 404 = ''404''" by code_simp
  moreover have "status_error_code 404 = Some ''ERR_BAD_REQUEST''" by (simp add: status_error_code_def)
  ultimately show ?thesis using http_error_path [OF h, of "''Not Found''"] h by simp
qed

text \<open>
  C22. The error logged for a failing status carries axios's class code:
  \<open>ERR_BAD_REQUEST\<close> for 4xx, \<open>ERR_BAD_RESPONSE\<close> for 5xx, and none for any other
  failing status (1xx, 3xx, 600 and above).
\<close>

theorem http_error_code:
  "0 < st \<Longrightarrow> \<not> validate_status st \<Longrightarrow>
   \<exists>e. console (run_program (Reply st body)) = [on_rejected e] \<and>
     err_code e = (if 400 \<le> st \<and> st < 500 then Some ''ERR_BAD_REQUEST''
                   else if 500 \<le> st \<and> st < 600 then Some ''ERR_BAD_RESPONSE'' else None)"
proof -
  assume "0 < st" and "\<not> validate_status st"
  then have "console (run_program (Reply st body)) =
      [on_rejected \<lparr>err_message = ''Request failed with status code '' @ show_nat st,
                    err_code = status_error_code st,
                    err_response = Some \<lparr>resp_status = st, resp_data = transform_response body\<rparr>\<rparr>]"
    by (simp add: run_program_console promise_chain_def Let_def)
  moreover have "status_error_code st = (if 400 \<le> st \<and> st < 500 then Some ''ERR_BAD_REQUEST''
                   else if 500 \<le> st \<and> st < 600 then Some ''ERR_BAD_RESPONSE'' else None)"
    by (auto simp: status_error_code_def)
  ultimately show ?thesis by auto
qed

theorem http_error_code_witness:
  "0 < (503::nat) \<and> \<not> validate_status 503 \<and>
   (\<exists>e. console (run_program (Reply 503 ''busy'')) = [on_rejected e] \<and> err_code e = Some ''ERR_BAD_RESPONSE'')"
proof -
  have h: "0 < (503::nat)" "\<not> validate_status 503" by (simp_all add: validate_status_def)
  from http_error_code [OF h, of "''busy''"] h show ?thesis by simp
qed

text \<open>
  C14. The reply's status decides the outcome: the run succeeds exactly for status 0 and
  for 200 to 299, and fails for every other status.
\<close>

theorem status_bounds:
  "phase (run_program (Reply st body)) = Succeeded \<longleftrightarrow> st = 0 \<or> (200 \<le> st \<and> st < 300)"
  by (simp add: run_program_def validate_status_def Let_def)







end
